theory Spec2Isabelle
  imports Main "HOL-Library.Word"
begin

section \<open>Sub-repository permissions: the data model\<close>

text \<open>
  The embedding follows \<^verbatim>\<open>internal/authz/sub_repo_perms.go\<close>. An \<^verbatim>\<open>int32\<close> is a
  32-bit word; a Go string is a list of 8-bit characters; a Go result pair
  \<^verbatim>\<open>(v, err)\<close> is a pair whose second component is \<open>None\<close> for \<^verbatim>\<open>nil\<close>.
\<close>

type_synonym int32 = "32 word"

type_synonym RepoName = string

record RepoContent =
  Repo :: RepoName
  Path :: string

text \<open>
  Modelled from the spec: the type \<^verbatim>\<open>Perms\<close> of package authz is declared outside
  the files at hand; the spec gives it as the enumeration \<open>{None, Read}\<close>.
\<close>

datatype Perms = None_Perms | Read

text \<open>
  Modelled from the spec: the rule set \<^verbatim>\<open>SubRepoPermissions\<close> (two ordered sequences
  of glob pattern strings) and the error value \<^verbatim>\<open>ErrUnauthenticated\<close> are declared
  outside the files at hand. \<open>New\<close> is \<^verbatim>\<open>errors.New\<close>, \<open>Wrap\<close> is \<^verbatim>\<open>errors.Wrap\<close>.
\<close>

record SubRepoPermissions =
  PathIncludes :: "string list"
  PathExcludes :: "string list"

datatype error = ErrUnauthenticated | New string | Wrap error string

text \<open>
  Modelled from the spec: \<^verbatim>\<open>actor.Actor\<close> with its methods \<^verbatim>\<open>IsAuthenticated\<close> and
  \<^verbatim>\<open>IsInternal\<close> lives in package actor, outside the files at hand. The spec gives
  the identity as \<open>{UserID, Authenticated, Internal}\<close>; the three fields are kept
  independent here, so every statement over all actors also covers the actors whose
  authentication state is determined by the user id.
\<close>

record Actor =
  UID :: int32
  Authenticated :: bool
  Internal :: bool

definition IsAuthenticated :: "Actor \<Rightarrow> bool" where
  "IsAuthenticated a = Authenticated a"

definition IsInternal :: "Actor \<Rightarrow> bool" where
  "IsInternal a = Internal a"

text \<open>
  The interface \<^verbatim>\<open>SubRepoPermissionsGetter\<close>: the two methods of the rule-set store.
  A Go map is a partial function; the context argument is not modelled.
\<close>

record SubRepoPermissionsGetter =
  GetByUser :: "int32 \<Rightarrow> (RepoName \<rightharpoonup> SubRepoPermissions) \<times> error option"
  RepoSupported :: "RepoName \<Rightarrow> bool \<times> error option"

text \<open>
  The glob library (\<^verbatim>\<open>github.com/gobwas/glob\<close>) is a parameter of the evaluator:
  \<open>Compile\<close> takes the pattern and the separators, \<open>Match\<close> a compiled matcher and
  the subject.
\<close>

record 'g glob =
  Compile :: "string \<Rightarrow> char list \<Rightarrow> error + 'g"
  Match :: "'g \<Rightarrow> string \<Rightarrow> bool"

text \<open>
  Calls that leave the evaluator are recorded, in order, as events: the two store
  methods, and the compilation and the evaluation of a glob.
\<close>

datatype 'g event =
  EvRepoSupported RepoName
| EvGetByUser int32
| EvCompile string
| EvMatch 'g string

type_synonym 'g outcome = "(Perms \<times> error option) \<times> 'g event list"

record subRepoPermsClient =
  permissionsGetter :: "SubRepoPermissionsGetter option"

section \<open>The feature flag\<close>

definition subRepoPermsEnabled :: "int32 \<Rightarrow> bool" where
  "subRepoPermsEnabled subRepoPermsEnabledFlag = (subRepoPermsEnabledFlag = 1)"

section \<open>Go's \<^verbatim>\<open>path.Clean\<close> and \<^verbatim>\<open>path.Join\<close>\<close>

text \<open>
  The inner loop of a \<^verbatim>\<open>..\<close> element: \<^verbatim>\<open>for out.w > dotdot && out.index(out.w) != '/'\<close>
  \<^verbatim>\<open>{ out.w-- }\<close>.
\<close>

function backtrack :: "string \<Rightarrow> nat \<Rightarrow> nat \<Rightarrow> nat" where
  "backtrack out dotdot w =
     (if w > dotdot \<and> out ! w \<noteq> CHR ''/'' then backtrack out dotdot (w - 1) else w)"
  by pat_completeness auto
termination
  by (relation "measure (\<lambda>(out, dotdot, w). w)") auto

declare backtrack.simps [simp del]

text \<open>
  The main loop of \<^verbatim>\<open>Clean\<close>. The first argument is \<^verbatim>\<open>rooted\<close>, the second the
  unread part \<^verbatim>\<open>path[r:]\<close>, the third the written part of the buffer (its length is
  \<^verbatim>\<open>out.w\<close>), the fourth \<^verbatim>\<open>dotdot\<close>. In the third case \<open>cs\<close> is not empty, since the
  second case did not apply.
\<close>

function clean_loop :: "bool \<Rightarrow> string \<Rightarrow> string \<Rightarrow> nat \<Rightarrow> string" where
  "clean_loop rooted [] out dotdot = out"
| "clean_loop rooted (c # cs) out dotdot =
     (if c = CHR ''/'' then clean_loop rooted cs out dotdot
      else if c = CHR ''.'' \<and> (cs = [] \<or> hd cs = CHR ''/'')
        then clean_loop rooted cs out dotdot
      else if c = CHR ''.'' \<and> hd cs = CHR ''.'' \<and> (tl cs = [] \<or> hd (tl cs) = CHR ''/'')
        then (if length out > dotdot
                then clean_loop rooted (tl cs)
                       (take (backtrack out dotdot (length out - 1)) out) dotdot
              else if \<not> rooted
                then clean_loop rooted (tl cs)
                       ((if length out > 0 then out @ ''/'' else out) @ ''..'')
                       (length ((if length out > 0 then out @ ''/'' else out) @ ''..''))
              else clean_loop rooted (tl cs) out dotdot)
      else clean_loop rooted (dropWhile (\<lambda>x. x \<noteq> CHR ''/'') cs)
             ((if rooted \<and> length out \<noteq> 1 \<or> \<not> rooted \<and> length out \<noteq> 0
                 then out @ ''/'' else out)
              @ c # takeWhile (\<lambda>x. x \<noteq> CHR ''/'') cs)
             dotdot)"
  by pat_completeness auto
termination
  apply (relation "measure (\<lambda>(rooted, p, out, dotdot). length p)")
        apply simp
       apply simp
      apply simp
     apply simp
    apply simp
   apply simp
  apply (simp add: le_imp_less_Suc length_dropWhile_le)
  done

definition Clean :: "string \<Rightarrow> string" where
  "Clean p =
     (if p = [] then ''.''
      else
        let rooted = (hd p = CHR ''/'');
            out = (if rooted then clean_loop rooted (tl p) ''/'' 1
                   else clean_loop rooted p [] 0)
        in if length out = 0 then ''.'' else out)"

text \<open>
  \<^verbatim>\<open>Join\<close>: empty elements are skipped, the others are put together with a slash
  between them, and the result is cleaned. With nothing but empty elements the
  result is the empty string.
\<close>

fun join_buf :: "string list \<Rightarrow> string \<Rightarrow> string" where
  "join_buf [] buf = buf"
| "join_buf (e # es) buf =
     (if length buf > 0 \<or> e \<noteq> []
        then join_buf es ((if length buf > 0 then buf @ ''/'' else buf) @ e)
      else join_buf es buf)"

definition Join :: "string list \<Rightarrow> string" where
  "Join elem =
     (if sum_list (map length elem) = 0 then [] else Clean (join_buf elem []))"

subsection \<open>The form of a cleaned path\<close>








section \<open>The glob library, wildcard fragment\<close>

text \<open>
  Modelled from the spec: the glob library is not part of the files at hand; the spec
  asks for \<^verbatim>\<open>/\<close>-delimited glob semantics. The general theorems below hold for every
  glob library (the parameter \<open>G\<close>). Where a pattern has to be run, this model of the
  wildcard fragment is used: literal text with backslash escapes, \<^verbatim>\<open>?\<close> for one
  character that is not a separator, \<^verbatim>\<open>*\<close> for any run of characters that are not
  separators, \<^verbatim>\<open>**\<close> for any run of characters. Character classes and alternatives
  (\<^verbatim>\<open>[\<close> and \<^verbatim>\<open>{\<close>) are outside the fragment and are reported as an error by
  \<open>glob_Compile\<close>; this agrees with the library on malformed ones only, such as an
  unterminated \<^verbatim>\<open>[\<close>.
\<close>

datatype token = Text string | Any | Super | Single

record Glob =
  tokens :: "token list"
  separators :: "char list"

definition inTextBreakers :: "char list" where
  "inTextBreakers = ''?*[{''"

text \<open>
  The lexer's text reader: characters up to the next breaker that is not escaped; a
  backslash escapes the character after it. The result is the text and the unread rest.
\<close>

fun fetchText :: "char list \<Rightarrow> bool \<Rightarrow> string \<Rightarrow> string \<Rightarrow> string \<times> string" where
  "fetchText breakers escaped [] data = (data, [])"
| "fetchText breakers escaped (r # rs) data =
     (if \<not> escaped \<and> r = CHR 0x5C then fetchText breakers True rs data
      else if \<not> escaped \<and> r \<in> set breakers then (data, r # rs)
      else fetchText breakers False rs (data @ [r]))"

lemma fetchText_rest_le:
  "length (snd (fetchText breakers escaped rs data)) \<le> length rs"
  by (induction breakers escaped rs data rule: fetchText.induct) auto

lemma fetchText_rest_less:
  assumes "r \<notin> set breakers"
  shows "length (snd (fetchText breakers False (r # rs) data)) < Suc (length rs)"
  using assms fetchText_rest_le [of breakers True rs data]
    fetchText_rest_le [of breakers False rs "data @ [r]"]
  by (simp add: le_imp_less_Suc)

function lex :: "string \<Rightarrow> error + token list" where
  "lex [] = Inr []"
| "lex (r # rs) =
     (if r = CHR ''{'' \<or> r = CHR ''[''
        then Inl (New ''pattern outside the wildcard fragment'')
      else if r = CHR ''?''
        then (case lex rs of Inl err \<Rightarrow> Inl err | Inr ts \<Rightarrow> Inr (Single # ts))
      else if r = CHR ''*''
        then (if rs \<noteq> [] \<and> hd rs = CHR ''*''
                then (case lex (tl rs) of Inl err \<Rightarrow> Inl err | Inr ts \<Rightarrow> Inr (Super # ts))
              else (case lex rs of Inl err \<Rightarrow> Inl err | Inr ts \<Rightarrow> Inr (Any # ts)))
      else (case lex (snd (fetchText inTextBreakers False (r # rs) [])) of
              Inl err \<Rightarrow> Inl err
            | Inr ts \<Rightarrow>
                (if fst (fetchText inTextBreakers False (r # rs) []) \<noteq> []
                   then Inr (Text (fst (fetchText inTextBreakers False (r # rs) [])) # ts)
                 else Inr ts)))"
  by pat_completeness auto
termination
  apply (relation "measure length")
      apply simp
     apply simp
    apply simp
   apply simp
  apply (simp only: in_measure length_Cons)
  apply (rule fetchText_rest_less)
  apply (simp add: inTextBreakers_def)
  done

definition glob_Compile :: "string \<Rightarrow> char list \<Rightarrow> error + Glob" where
  "glob_Compile pattern seps =
     (case lex pattern of
        Inl err \<Rightarrow> Inl err
      | Inr ts \<Rightarrow> Inr \<lparr>tokens = ts, separators = seps\<rparr>)"

fun match_tokens :: "char list \<Rightarrow> token list \<Rightarrow> string \<Rightarrow> bool" where
  "match_tokens seps [] s = (s = [])"
| "match_tokens seps (Text t # ts) s =
     (take (length t) s = t \<and> match_tokens seps ts (drop (length t) s))"
| "match_tokens seps (Single # ts) [] = False"
| "match_tokens seps (Single # ts) (c # s) = (c \<notin> set seps \<and> match_tokens seps ts s)"
| "match_tokens seps (Any # ts) [] = match_tokens seps ts []"
| "match_tokens seps (Any # ts) (c # s) =
     (match_tokens seps ts (c # s) \<or> c \<notin> set seps \<and> match_tokens seps (Any # ts) s)"
| "match_tokens seps (Super # ts) [] = match_tokens seps ts []"
| "match_tokens seps (Super # ts) (c # s) =
     (match_tokens seps ts (c # s) \<or> match_tokens seps (Super # ts) s)"

definition glob_Match :: "Glob \<Rightarrow> string \<Rightarrow> bool" where
  "glob_Match g s = match_tokens (separators g) (tokens g) s"

definition gobwas :: "Glob glob" where
  "gobwas = \<lparr>Compile = glob_Compile, Match = glob_Match\<rparr>"

section \<open>The evaluator\<close>

text \<open>
  The two compile loops: every rule is compiled with the separator \<^verbatim>\<open>/\<close>; the first
  failure ends the loop with that error. The result carries the events of the loop.
\<close>

fun compile_rules ::
  "'g glob \<Rightarrow> string list \<Rightarrow> 'g list \<Rightarrow> (error + 'g list) \<times> 'g event list" where
  "compile_rules G [] matchers = (Inr matchers, [])"
| "compile_rules G (rule # rules) matchers =
     (case Compile G rule ''/'' of
        Inl err \<Rightarrow> (Inl err, [EvCompile rule])
      | Inr g \<Rightarrow>
          (case compile_rules G rules (matchers @ [g]) of
             (r, evs) \<Rightarrow> (r, EvCompile rule # evs)))"

text \<open>
  The two match loops: the matchers are tried in order, the first one that matches
  ends the loop.
\<close>

fun match_rules :: "'g glob \<Rightarrow> 'g list \<Rightarrow> string \<Rightarrow> bool \<times> 'g event list" where
  "match_rules G [] toMatch = (False, [])"
| "match_rules G (rule # rules) toMatch =
     (if Match G rule toMatch then (True, [EvMatch rule toMatch])
      else (case match_rules G rules toMatch of
              (r, evs) \<Rightarrow> (r, EvMatch rule toMatch # evs)))"

definition Permissions ::
  "'g glob \<Rightarrow> int32 \<Rightarrow> subRepoPermsClient \<Rightarrow> int32 \<Rightarrow> RepoContent \<Rightarrow> 'g outcome" where
  "Permissions G flag s userID content =
     (if \<not> subRepoPermsEnabled flag then ((Read, None), [])
      else if userID = 0 then ((None_Perms, Some ErrUnauthenticated), [])
      else
        (case permissionsGetter s of
           None \<Rightarrow> ((None_Perms, Some (New ''PermissionsGetter is nil'')), [])
         | Some pg \<Rightarrow>
        (case RepoSupported pg (Repo content) of
           (supported, Some err) \<Rightarrow>
             ((None_Perms, Some (Wrap err ''checking for sub-repo permissions support'')),
              [EvRepoSupported (Repo content)])
         | (supported, None) \<Rightarrow>
        if \<not> supported then ((Read, None), [EvRepoSupported (Repo content)])
        else
        (case GetByUser pg userID of
           (srp, Some err) \<Rightarrow>
             ((None_Perms, Some (Wrap err ''getting permissions'')),
              [EvRepoSupported (Repo content), EvGetByUser userID])
         | (srp, None) \<Rightarrow>
        (case srp (Repo content) of
           None \<Rightarrow>
             ((None_Perms, None), [EvRepoSupported (Repo content), EvGetByUser userID])
         | Some repoRules \<Rightarrow>
        (case compile_rules G (PathIncludes repoRules) [] of
           (Inl err, evs1) \<Rightarrow>
             ((None_Perms, Some (Wrap err ''building include matcher'')),
              [EvRepoSupported (Repo content), EvGetByUser userID] @ evs1)
         | (Inr includeMatchers, evs1) \<Rightarrow>
        (case compile_rules G (PathExcludes repoRules) [] of
           (Inl err, evs2) \<Rightarrow>
             ((None_Perms, Some (Wrap err ''building exclude matcher'')),
              [EvRepoSupported (Repo content), EvGetByUser userID] @ evs1 @ evs2)
         | (Inr excludeMatchers, evs2) \<Rightarrow>
        (let toMatch = Join [Repo content, Path content] in
         case match_rules G excludeMatchers toMatch of
           (True, evs3) \<Rightarrow>
             ((None_Perms, None),
              [EvRepoSupported (Repo content), EvGetByUser userID] @ evs1 @ evs2 @ evs3)
         | (False, evs3) \<Rightarrow>
        (case match_rules G includeMatchers toMatch of
           (True, evs4) \<Rightarrow>
             ((Read, None),
              [EvRepoSupported (Repo content), EvGetByUser userID]
              @ evs1 @ evs2 @ evs3 @ evs4)
         | (False, evs4) \<Rightarrow>
             ((None_Perms, None),
              [EvRepoSupported (Repo content), EvGetByUser userID]
              @ evs1 @ evs2 @ evs3 @ evs4))))))))))"

text \<open>
  \<open>ActorPermissions\<close> takes the checker as the interface it is: any function from a
  user id and a content to an outcome.
\<close>

definition ActorPermissions ::
  "int32 \<Rightarrow> (int32 \<Rightarrow> RepoContent \<Rightarrow> 'g outcome) \<Rightarrow> Actor \<Rightarrow> RepoContent \<Rightarrow> 'g outcome" where
  "ActorPermissions flag s a content =
     (if \<not> subRepoPermsEnabled flag then ((Read, None), [])
      else if \<not> IsAuthenticated a then ((None_Perms, Some ErrUnauthenticated), [])
      else if IsInternal a then ((Read, None), [])
      else s (UID a) content)"

section \<open>What the rules say\<close>

text \<open>
  The vocabulary of the statements below. A pattern \<open>compiles\<close> when the library
  accepts it; it \<open>matches\<close> a subject when it compiles and its matcher accepts the
  subject; \<open>matcher\<close> is the compiled form of a pattern that compiles. \<open>tried P xs\<close>
  is the part of \<open>xs\<close> that a loop with early exit visits: everything up to and
  including the first element with \<open>P\<close>. \<open>match_events\<close> are the evaluations of a
  match loop over the matchers of a pattern list, and \<open>decide\<close> is the decision of the
  spec: exclude before include, deny by default.
\<close>

definition compiles :: "'g glob \<Rightarrow> string \<Rightarrow> bool" where
  "compiles G p = (case Compile G p ''/'' of Inl err \<Rightarrow> False | Inr g \<Rightarrow> True)"

definition matches :: "'g glob \<Rightarrow> string \<Rightarrow> string \<Rightarrow> bool" where
  "matches G toMatch p =
     (case Compile G p ''/'' of Inl err \<Rightarrow> False | Inr g \<Rightarrow> Match G g toMatch)"

fun matchers :: "'g glob \<Rightarrow> string list \<Rightarrow> 'g list" where
  "matchers G [] = []"
| "matchers G (p # ps) =
     (case Compile G p ''/'' of Inl err \<Rightarrow> matchers G ps | Inr g \<Rightarrow> g # matchers G ps)"

fun tried :: "('a \<Rightarrow> bool) \<Rightarrow> 'a list \<Rightarrow> 'a list" where
  "tried P [] = []"
| "tried P (x # xs) = (if P x then [x] else x # tried P xs)"

definition match_events :: "'g glob \<Rightarrow> string \<Rightarrow> string list \<Rightarrow> 'g event list" where
  "match_events G toMatch ps =
     map (\<lambda>g. EvMatch g toMatch) (tried (\<lambda>g. Match G g toMatch) (matchers G ps))"

definition decide :: "'g glob \<Rightarrow> SubRepoPermissions \<Rightarrow> string \<Rightarrow> Perms" where
  "decide G repoRules toMatch =
     (if list_ex (matches G toMatch) (PathExcludes repoRules) then None_Perms
      else if list_ex (matches G toMatch) (PathIncludes repoRules) then Read
      else None_Perms)"

fun isMatch :: "'g event \<Rightarrow> bool" where
  "isMatch (EvMatch g t) = True"
| "isMatch e = False"


text \<open>The two grant paths of the evaluator that depend on the store.\<close>

definition unsupported_repo :: "subRepoPermsClient \<Rightarrow> RepoContent \<Rightarrow> bool" where
  "unsupported_repo s content =
     (case permissionsGetter s of
        None \<Rightarrow> False
      | Some pg \<Rightarrow> RepoSupported pg (Repo content) = (False, None))"

definition include_grant ::
  "'g glob \<Rightarrow> subRepoPermsClient \<Rightarrow> int32 \<Rightarrow> RepoContent \<Rightarrow> bool" where
  "include_grant G s userID content =
     (case permissionsGetter s of
        None \<Rightarrow> False
      | Some pg \<Rightarrow>
          (case GetByUser pg userID of
             (srp, Some err) \<Rightarrow> False
           | (srp, None) \<Rightarrow>
               (case srp (Repo content) of
                  None \<Rightarrow> False
                | Some repoRules \<Rightarrow>
                    list_ex (matches G (Join [Repo content, Path content]))
                      (PathIncludes repoRules)
                    \<and> \<not> list_ex (matches G (Join [Repo content, Path content]))
                          (PathExcludes repoRules))))"

text \<open>A store for the examples: one rule set for the repository \<^verbatim>\<open>r\<close>.\<close>

definition example_getter :: "SubRepoPermissions \<Rightarrow> bool \<Rightarrow> SubRepoPermissionsGetter" where
  "example_getter repoRules supported =
     \<lparr>GetByUser = (\<lambda>userID. ([''r'' \<mapsto> repoRules], None)),
      RepoSupported = (\<lambda>repo. (supported, None))\<rparr>"

section \<open>The loops\<close>

lemma compile_rules_ok:
  "list_all (compiles G) ps \<Longrightarrow>
   compile_rules G ps ms = (Inr (ms @ matchers G ps), map EvCompile ps)"
proof (induction ps arbitrary: ms)
  case Nil
  show ?case by simp
next
  case (Cons p ps)
  from Cons.prems obtain g where g: "Compile G p ''/'' = Inr g"
    by (auto simp: compiles_def split: sum.splits)
  from Cons.prems have "list_all (compiles G) ps" by simp
  from Cons.IH [OF this, of "ms @ [g]"] g show ?case
    by simp
qed

lemma compile_rules_fail:
  "find (\<lambda>p. \<not> compiles G p) ps = Some bad \<Longrightarrow> Compile G bad ''/'' = Inl err \<Longrightarrow>
   compile_rules G ps ms = (Inl err, map EvCompile (tried (\<lambda>p. \<not> compiles G p) ps))"
proof (induction ps arbitrary: ms)
  case Nil
  then show ?case by simp
next
  case (Cons p ps)
  show ?case
  proof (cases "Compile G p ''/''")
    case (Inl e)
    then have "\<not> compiles G p" by (simp add: compiles_def)
    with Inl Cons.prems show ?thesis by simp
  next
    case (Inr g)
    then have "compiles G p" by (simp add: compiles_def)
    with Cons.prems have "find (\<lambda>p. \<not> compiles G p) ps = Some bad" by simp
    from Cons.IH [OF this Cons.prems(2), of "ms @ [g]"] Inr \<open>compiles G p\<close> show ?thesis
      by simp
  qed
qed

lemma find_bad_pattern:
  "\<not> list_all (compiles G) ps \<Longrightarrow>
   \<exists>bad err. find (\<lambda>p. \<not> compiles G p) ps = Some bad \<and> Compile G bad ''/'' = Inl err"
  by (induction ps) (auto simp: compiles_def split: sum.splits)

lemma match_rules_eq:
  "match_rules G gs toMatch =
     (list_ex (\<lambda>g. Match G g toMatch) gs,
      map (\<lambda>g. EvMatch g toMatch) (tried (\<lambda>g. Match G g toMatch) gs))"
  by (induction gs) auto

lemma list_ex_matchers:
  "list_ex (\<lambda>g. Match G g t) (matchers G ps) = list_ex (matches G t) ps"
  by (induction ps) (auto simp: matches_def split: sum.splits)

lemma tried_append_all:
  "list_all (\<lambda>x. \<not> P x) xs \<Longrightarrow> tried P (xs @ ys) = xs @ tried P ys"
  by (induction xs) auto

lemma tried_append_some:
  "\<not> list_all (\<lambda>x. \<not> P x) xs \<Longrightarrow> tried P (xs @ ys) = tried P xs"
  by (induction xs) auto

lemma find_append_all:
  "list_all (\<lambda>x. \<not> P x) xs \<Longrightarrow> find P (xs @ ys) = find P ys"
  by (induction xs) auto

lemma find_append_some:
  "\<not> list_all (\<lambda>x. \<not> P x) xs \<Longrightarrow> find P (xs @ ys) = find P xs"
  by (induction xs) auto

section \<open>The evaluator, phase by phase\<close>

text \<open>
  Once the call has passed the flag, the user id, the store and the repository
  lookup, and every pattern compiles, the outcome is the decision of the rules, and
  the events are the two store calls, the compilations (includes first), the
  evaluations of the exclude matchers, and only when none of them matched the
  evaluations of the include matchers.
\<close>

lemma Permissions_rules:
  assumes "subRepoPermsEnabled flag" and "userID \<noteq> 0"
    and "permissionsGetter s = Some pg"
    and "RepoSupported pg (Repo content) = (True, None)"
    and "GetByUser pg userID = (srp, None)"
    and "srp (Repo content) = Some repoRules"
    and "list_all (compiles G) (PathIncludes repoRules)"
    and "list_all (compiles G) (PathExcludes repoRules)"
  shows "Permissions G flag s userID content =
     ((decide G repoRules (Join [Repo content, Path content]), None),
      [EvRepoSupported (Repo content), EvGetByUser userID]
      @ map EvCompile (PathIncludes repoRules)
      @ map EvCompile (PathExcludes repoRules)
      @ match_events G (Join [Repo content, Path content]) (PathExcludes repoRules)
      @ (if list_ex (matches G (Join [Repo content, Path content])) (PathExcludes repoRules)
           then []
         else match_events G (Join [Repo content, Path content]) (PathIncludes repoRules)))"
  using assms
  by (simp add: Permissions_def compile_rules_ok match_rules_eq list_ex_matchers
      decide_def match_events_def Let_def)

text \<open>
  When a pattern does not compile, the call ends at the first such pattern (the
  includes are compiled before the excludes) with its error, wrapped.
\<close>

lemma Permissions_compile_error:
  assumes "subRepoPermsEnabled flag" and "userID \<noteq> 0"
    and "permissionsGetter s = Some pg"
    and "RepoSupported pg (Repo content) = (True, None)"
    and "GetByUser pg userID = (srp, None)"
    and "srp (Repo content) = Some repoRules"
    and "find (\<lambda>p. \<not> compiles G p) (PathIncludes repoRules @ PathExcludes repoRules)
           = Some bad"
    and "Compile G bad ''/'' = Inl err"
  shows "Permissions G flag s userID content =
     ((None_Perms,
       Some (Wrap err
               (if list_all (compiles G) (PathIncludes repoRules)
                  then ''building exclude matcher'' else ''building include matcher''))),
      [EvRepoSupported (Repo content), EvGetByUser userID]
      @ map EvCompile (tried (\<lambda>p. \<not> compiles G p)
          (PathIncludes repoRules @ PathExcludes repoRules)))"
proof (cases "list_all (compiles G) (PathIncludes repoRules)")
  case True
  then have all: "list_all (\<lambda>p. \<not> \<not> compiles G p) (PathIncludes repoRules)" by simp
  from assms(7) have f: "find (\<lambda>p. \<not> compiles G p) (PathExcludes repoRules) = Some bad"
    by (simp add: find_append_all [OF all])
  from assms(1-6) True show ?thesis
    by (simp add: Permissions_def compile_rules_ok compile_rules_fail [OF f assms(8)]
        tried_append_all [OF all])
next
  case False
  then have some: "\<not> list_all (\<lambda>p. \<not> \<not> compiles G p) (PathIncludes repoRules)" by simp
  from assms(7) have f: "find (\<lambda>p. \<not> compiles G p) (PathIncludes repoRules) = Some bad"
    by (simp add: find_append_some [OF some])
  from assms(1-6) False show ?thesis
    by (simp add: Permissions_def compile_rules_fail [OF f assms(8)]
        tried_append_some [OF some])
qed

section \<open>The short circuits\<close>

text \<open>
  C2. Whenever the feature flag is disabled, \<open>Permissions\<close> (for every user id and
  content) and \<open>ActorPermissions\<close> (for every actor and content) return \<open>(Read, nil)\<close>,
  and no method of the store is invoked: the outcome is the same for every client,
  every checker and every glob library, and it has no event.
\<close>

theorem flag_disabled_Read:
  assumes "\<not> subRepoPermsEnabled flag"
  shows "Permissions G flag s userID content = ((Read, None), [])
         \<and> ActorPermissions flag checker a content = ((Read, None), [])"
  using assms by (simp add: Permissions_def ActorPermissions_def)

theorem flag_disabled_Read_witness:
  "\<not> subRepoPermsEnabled 0
   \<and> Permissions gobwas 0
        \<lparr>permissionsGetter =
           Some (example_getter \<lparr>PathIncludes = [], PathExcludes = [''**'']\<rparr> True)\<rparr>
        7 \<lparr>Repo = ''r'', Path = ''secret/file.txt''\<rparr> = ((Read, None), [])
   \<and> ActorPermissions 0
        (Permissions gobwas 0
           \<lparr>permissionsGetter =
              Some (example_getter \<lparr>PathIncludes = [], PathExcludes = [''**'']\<rparr> True)\<rparr>)
        \<lparr>UID = 0, Authenticated = False, Internal = False\<rparr>
        \<lparr>Repo = ''r'', Path = ''secret/file.txt''\<rparr> = ((Read, None), [])"
proof -
  have h: "\<not> subRepoPermsEnabled 0" by (simp add: subRepoPermsEnabled_def)
  show ?thesis using h flag_disabled_Read [OF h] by simp
qed

text \<open>
  C6. With the flag enabled, \<open>Permissions\<close> called with user id 0 returns \<open>None\<close>
  together with the error \<open>Unauthenticated\<close>. This holds for every client, also for
  one without a store, so the check comes before the one for a missing store; and
  the outcome has no event, so it comes before every call of the store.
\<close>

theorem anonymous_user_Unauthenticated:
  assumes "subRepoPermsEnabled flag"
  shows "Permissions G flag s 0 content = ((None_Perms, Some ErrUnauthenticated), [])"
  using assms by (simp add: Permissions_def)

theorem anonymous_user_Unauthenticated_witness:
  "subRepoPermsEnabled 1
   \<and> Permissions gobwas 1 \<lparr>permissionsGetter = None\<rparr> 0 \<lparr>Repo = ''r'', Path = ''a''\<rparr>
       = ((None_Perms, Some ErrUnauthenticated), [])"
proof -
  have h: "subRepoPermsEnabled 1" by (simp add: subRepoPermsEnabled_def)
  show ?thesis using h anonymous_user_Unauthenticated [OF h] by simp
qed

text \<open>
  C7. With the flag enabled and a store configured, if \<open>RepoSupported\<close> returns
  \<open>(false, nil)\<close> for the repository of the content, \<open>Permissions\<close> returns
  \<open>(Read, nil)\<close>, whatever rule sets the user has, and \<open>GetByUser\<close> is never called:
  the only event is the call of \<open>RepoSupported\<close>. That \<open>RepoSupported\<close> returns
  means that it was called, so the user id is not 0 (see C6).
\<close>

theorem unsupported_repo_Read:
  assumes "subRepoPermsEnabled flag" and "userID \<noteq> 0"
    and "permissionsGetter s = Some pg"
    and "RepoSupported pg (Repo content) = (False, None)"
  shows "Permissions G flag s userID content =
           ((Read, None), [EvRepoSupported (Repo content)])"
  using assms by (simp add: Permissions_def)

theorem unsupported_repo_Read_witness:
  "Permissions gobwas 1
     \<lparr>permissionsGetter =
        Some (example_getter \<lparr>PathIncludes = [], PathExcludes = [''**'']\<rparr> False)\<rparr>
     7 \<lparr>Repo = ''r'', Path = ''secret/file.txt''\<rparr>
   = ((Read, None), [EvRepoSupported ''r''])"
proof -
  have h: "subRepoPermsEnabled 1" by (simp add: subRepoPermsEnabled_def)
  show ?thesis
    using unsupported_repo_Read [OF h, of 7
        "\<lparr>permissionsGetter =
            Some (example_getter \<lparr>PathIncludes = [], PathExcludes = [''**'']\<rparr> False)\<rparr>"
        "example_getter \<lparr>PathIncludes = [], PathExcludes = [''**'']\<rparr> False"
        "\<lparr>Repo = ''r'', Path = ''secret/file.txt''\<rparr>" gobwas]
    by (simp add: example_getter_def)
qed

text \<open>
  C8. With the flag enabled, the repository supported and \<open>GetByUser\<close> succeeding, if
  the repository of the content is absent from the returned map, \<open>Permissions\<close>
  returns \<open>(None, nil)\<close>: a success, not an error. No pattern is compiled or
  evaluated: the events are the two calls of the store.
\<close>

theorem absent_repo_None:
  assumes "subRepoPermsEnabled flag" and "userID \<noteq> 0"
    and "permissionsGetter s = Some pg"
    and "RepoSupported pg (Repo content) = (True, None)"
    and "GetByUser pg userID = (srp, None)"
    and "srp (Repo content) = None"
  shows "Permissions G flag s userID content =
           ((None_Perms, None), [EvRepoSupported (Repo content), EvGetByUser userID])"
  using assms by (simp add: Permissions_def)

theorem absent_repo_None_witness:
  "Permissions gobwas 1
     \<lparr>permissionsGetter =
        Some (example_getter \<lparr>PathIncludes = [''**''], PathExcludes = []\<rparr> True)\<rparr>
     7 \<lparr>Repo = ''other'', Path = ''file.txt''\<rparr>
   = ((None_Perms, None), [EvRepoSupported ''other'', EvGetByUser 7])"
proof -
  have h: "subRepoPermsEnabled 1" by (simp add: subRepoPermsEnabled_def)
  show ?thesis
    using absent_repo_None [OF h, of 7
        "\<lparr>permissionsGetter =
            Some (example_getter \<lparr>PathIncludes = [''**''], PathExcludes = []\<rparr> True)\<rparr>"
        "example_getter \<lparr>PathIncludes = [''**''], PathExcludes = []\<rparr> True"
        "\<lparr>Repo = ''other'', Path = ''file.txt''\<rparr>"
        "[''r'' \<mapsto> \<lparr>PathIncludes = [''**''], PathExcludes = []\<rparr>]" gobwas]
    by (simp add: example_getter_def)
qed

text \<open>
  C3, as the code has it. \<open>ActorPermissions\<close> asks whether the actor is authenticated
  before it asks whether the actor is internal. With the flag enabled, an internal
  actor that is authenticated gets \<open>(Read, nil)\<close>, whatever its user id, and neither
  the checker nor the store is called: the outcome is the same for every checker and
  has no event.
\<close>

theorem internal_actor_Read:
  assumes "subRepoPermsEnabled flag" and "IsAuthenticated a" and "IsInternal a"
  shows "ActorPermissions flag checker a content = ((Read, None), [])"
  using assms by (simp add: ActorPermissions_def)

theorem internal_actor_Read_witness:
  "ActorPermissions 1
     (Permissions gobwas 1
        \<lparr>permissionsGetter =
           Some (example_getter \<lparr>PathIncludes = [], PathExcludes = [''**'']\<rparr> True)\<rparr>)
     \<lparr>UID = 7, Authenticated = True, Internal = True\<rparr>
     \<lparr>Repo = ''r'', Path = ''secret/file.txt''\<rparr> = ((Read, None), [])"
proof -
  have h: "subRepoPermsEnabled 1" by (simp add: subRepoPermsEnabled_def)
  have i: "IsAuthenticated \<lparr>UID = 7, Authenticated = True, Internal = True\<rparr>"
    by (simp add: IsAuthenticated_def)
  have j: "IsInternal \<lparr>UID = 7, Authenticated = True, Internal = True\<rparr>"
    by (simp add: IsInternal_def)
  show ?thesis by (rule internal_actor_Read [OF h i j])
qed

text \<open>
  The claim C3 as it was stated (every internal actor, whatever its authentication
  state) fails for an internal actor that is not authenticated: the outcome is the
  error \<open>Unauthenticated\<close>.
\<close>

theorem internal_actor_counterexample:
  "subRepoPermsEnabled 1
   \<and> IsInternal \<lparr>UID = 0, Authenticated = False, Internal = True\<rparr>
   \<and> ActorPermissions 1
        (Permissions gobwas 1
           \<lparr>permissionsGetter =
              Some (example_getter \<lparr>PathIncludes = [''**''], PathExcludes = []\<rparr> True)\<rparr>)
        \<lparr>UID = 0, Authenticated = False, Internal = True\<rparr>
        \<lparr>Repo = ''r'', Path = ''file.txt''\<rparr>
       = ((None_Perms, Some ErrUnauthenticated), [])"
  by (simp add: ActorPermissions_def subRepoPermsEnabled_def IsInternal_def
      IsAuthenticated_def)

section \<open>The rules\<close>

text \<open>Facts of the examples, evaluated.\<close>

lemma Join_secret: "Join [''r'', ''secret/file.txt''] = ''r/secret/file.txt''"
  by code_simp

lemma Join_public: "Join [''r'', ''public/file.txt''] = ''r/public/file.txt''"
  by code_simp


lemma compiles_all: "compiles gobwas ''**''"
  by code_simp

lemma compiles_secret: "compiles gobwas ''secret/**''"
  by code_simp

lemma compiles_r_secret: "compiles gobwas ''r/secret/**''"
  by code_simp

lemma example_reaches_rules:
  "subRepoPermsEnabled 1"
  "(7::int32) \<noteq> 0"
  "permissionsGetter \<lparr>permissionsGetter = Some (example_getter repoRules True)\<rparr>
     = Some (example_getter repoRules True)"
  "RepoSupported (example_getter repoRules True) (Repo \<lparr>Repo = ''r'', Path = p\<rparr>)
     = (True, None)"
  "GetByUser (example_getter repoRules True) 7 = ([''r'' \<mapsto> repoRules], None)"
  "[''r'' \<mapsto> repoRules] (Repo \<lparr>Repo = ''r'', Path = p\<rparr>) = Some repoRules"
  by (simp_all add: subRepoPermsEnabled_def example_getter_def)

lemma example_store:
  "subRepoPermsEnabled 1"
  "(7::int32) \<noteq> 0"
  "permissionsGetter \<lparr>permissionsGetter = Some (example_getter repoRules True)\<rparr>
     = Some (example_getter repoRules True)"
  "RepoSupported (example_getter repoRules True) ''r'' = (True, None)"
  "GetByUser (example_getter repoRules True) 7 = ([''r'' \<mapsto> repoRules], None)"
  "[''r'' \<mapsto> repoRules] ''r'' = Some repoRules"
  by (simp_all add: subRepoPermsEnabled_def example_getter_def)

text \<open>
  C4. When the call reaches the rules (flag enabled, a user id other than 0, a store,
  the repository supported, the rule set of the repository found, every pattern
  compiled): if at least one exclude pattern matches the subject, \<open>Permissions\<close>
  returns \<open>(None, nil)\<close>, whether or not an include pattern matches as well. The
  events give the order: the exclude matchers are evaluated in their stored order up
  to the first one that matches, and the include matchers are evaluated after them,
  and only when no exclude matcher matched.
\<close>

theorem exclude_precedence:
  assumes "subRepoPermsEnabled flag" and "userID \<noteq> 0"
    and "permissionsGetter s = Some pg"
    and "RepoSupported pg (Repo content) = (True, None)"
    and "GetByUser pg userID = (srp, None)"
    and "srp (Repo content) = Some repoRules"
    and "list_all (compiles G) (PathIncludes repoRules)"
    and "list_all (compiles G) (PathExcludes repoRules)"
  shows "(list_ex (matches G (Join [Repo content, Path content])) (PathExcludes repoRules)
            \<longrightarrow> fst (Permissions G flag s userID content) = (None_Perms, None))
     \<and> snd (Permissions G flag s userID content) =
         [EvRepoSupported (Repo content), EvGetByUser userID]
         @ map EvCompile (PathIncludes repoRules)
         @ map EvCompile (PathExcludes repoRules)
         @ match_events G (Join [Repo content, Path content]) (PathExcludes repoRules)
         @ (if list_ex (matches G (Join [Repo content, Path content]))
                 (PathExcludes repoRules)
              then []
            else match_events G (Join [Repo content, Path content])
                   (PathIncludes repoRules))"
  by (simp add: Permissions_rules [OF assms] decide_def)

theorem exclude_precedence_witness:
  "fst (Permissions gobwas 1
     \<lparr>permissionsGetter = Some (example_getter
        \<lparr>PathIncludes = [''**''],
         PathExcludes = [''secret/**'', ''r/secret/**'', ''**'']\<rparr> True)\<rparr>
     7 \<lparr>Repo = ''r'', Path = ''secret/file.txt''\<rparr>) = (None_Perms, None)
   \<and> snd (Permissions gobwas 1
     \<lparr>permissionsGetter = Some (example_getter
        \<lparr>PathIncludes = [''**''],
         PathExcludes = [''secret/**'', ''r/secret/**'', ''**'']\<rparr> True)\<rparr>
     7 \<lparr>Repo = ''r'', Path = ''secret/file.txt''\<rparr>) =
      [EvRepoSupported ''r'', EvGetByUser 7,
       EvCompile ''**'',
       EvCompile ''secret/**'', EvCompile ''r/secret/**'', EvCompile ''**'',
       EvMatch \<lparr>tokens = [Text ''secret/'', Super], separators = ''/''\<rparr>
         ''r/secret/file.txt'',
       EvMatch \<lparr>tokens = [Text ''r/secret/'', Super], separators = ''/''\<rparr>
         ''r/secret/file.txt'']"
proof -
  let ?rules = "\<lparr>PathIncludes = [''**''],
                 PathExcludes = [''secret/**'', ''r/secret/**'', ''**'']\<rparr>"
  have i: "list_all (compiles gobwas) (PathIncludes ?rules)"
    by (simp add: compiles_all)
  have e: "list_all (compiles gobwas) (PathExcludes ?rules)"
    by (simp add: compiles_all compiles_secret compiles_r_secret)
  have m: "list_ex (matches gobwas
             (Join [Repo \<lparr>Repo = ''r'', Path = ''secret/file.txt''\<rparr>,
                    Path \<lparr>Repo = ''r'', Path = ''secret/file.txt''\<rparr>]))
             (PathExcludes ?rules)"
    by code_simp
  have ev: "match_events gobwas ''r/secret/file.txt''
              [''secret/**'', ''r/secret/**'', ''**''] =
            [EvMatch \<lparr>tokens = [Text ''secret/'', Super], separators = ''/''\<rparr>
               ''r/secret/file.txt'',
             EvMatch \<lparr>tokens = [Text ''r/secret/'', Super], separators = ''/''\<rparr>
               ''r/secret/file.txt'']"
    by code_simp
  note th = exclude_precedence [OF example_reaches_rules i e]
  from th [THEN conjunct1, rule_format, OF m]
  have a: "fst (Permissions gobwas 1
     \<lparr>permissionsGetter = Some (example_getter ?rules True)\<rparr>
     7 \<lparr>Repo = ''r'', Path = ''secret/file.txt''\<rparr>) = (None_Perms, None)" .
  from th [THEN conjunct2, of "''secret/file.txt''"] m
  have b: "snd (Permissions gobwas 1
     \<lparr>permissionsGetter = Some (example_getter ?rules True)\<rparr>
     7 \<lparr>Repo = ''r'', Path = ''secret/file.txt''\<rparr>) =
      [EvRepoSupported ''r'', EvGetByUser 7,
       EvCompile ''**'',
       EvCompile ''secret/**'', EvCompile ''r/secret/**'', EvCompile ''**'']
      @ match_events gobwas ''r/secret/file.txt''
              [''secret/**'', ''r/secret/**'', ''**'']"
    by (simp add: Join_secret)
  from a b show ?thesis by (simp add: ev)
qed

text \<open>
  C9. If a pattern of the \<open>PathIncludes\<close> or the \<open>PathExcludes\<close> of the repository
  does not compile, \<open>Permissions\<close> returns \<open>None\<close> together with the wrapped error
  of the first such pattern, and no matcher is evaluated in that call: the outcome
  has no match event.
\<close>

theorem invalid_pattern_error:
  assumes "subRepoPermsEnabled flag" and "userID \<noteq> 0"
    and "permissionsGetter s = Some pg"
    and "RepoSupported pg (Repo content) = (True, None)"
    and "GetByUser pg userID = (srp, None)"
    and "srp (Repo content) = Some repoRules"
    and "\<not> list_all (compiles G) (PathIncludes repoRules @ PathExcludes repoRules)"
  shows "\<exists>bad err.
           find (\<lambda>p. \<not> compiles G p) (PathIncludes repoRules @ PathExcludes repoRules)
             = Some bad
         \<and> Compile G bad ''/'' = Inl err
         \<and> fst (Permissions G flag s userID content) =
             (None_Perms,
              Some (Wrap err
                (if list_all (compiles G) (PathIncludes repoRules)
                   then ''building exclude matcher'' else ''building include matcher'')))
         \<and> filter isMatch (snd (Permissions G flag s userID content)) = []"
proof -
  from find_bad_pattern [OF assms(7)] obtain bad err
    where f: "find (\<lambda>p. \<not> compiles G p) (PathIncludes repoRules @ PathExcludes repoRules)
                = Some bad"
      and c: "Compile G bad ''/'' = Inl err"
    by blast
  have nomatch: "filter isMatch (map EvCompile ps) = []" for ps :: "string list"
    by (induction ps) auto
  from Permissions_compile_error [OF assms(1-6) f c] f c show ?thesis
    by (simp add: nomatch)
qed

theorem invalid_pattern_error_witness:
  "\<exists>err. fst (Permissions gobwas 1
     \<lparr>permissionsGetter = Some (example_getter
        \<lparr>PathIncludes = [''**''], PathExcludes = [''['']\<rparr> True)\<rparr>
     7 \<lparr>Repo = ''r'', Path = ''secret/file.txt''\<rparr>)
     = (None_Perms, Some (Wrap err ''building exclude matcher''))"
proof -
  let ?rules = "\<lparr>PathIncludes = [''**''], PathExcludes = [''['']\<rparr>"
  have bad: "\<not> compiles gobwas ''[''" by code_simp
  then have n: "\<not> list_all (compiles gobwas) (PathIncludes ?rules @ PathExcludes ?rules)"
    by simp
  from invalid_pattern_error [OF example_reaches_rules n, of "''secret/file.txt''"]
  show ?thesis
    by (auto simp: compiles_all)
qed

text \<open>
  C1, as the code has it. The subject is the repository name joined with the path, so
  an exclude rule takes effect when it is written with the repository name as its root
  segment. For a user whose rule set for the repository \<^verbatim>\<open>r\<close> has the includes
  \<^verbatim>\<open>["**"]\<close> and the excludes \<^verbatim>\<open>["r/secret/**"]\<close>, with the flag enabled, the repository
  supported and present in the result of \<open>GetByUser\<close>, \<open>Permissions\<close> returns \<open>None\<close>
  for the path \<^verbatim>\<open>secret/file.txt\<close> and \<open>Read\<close> for the path \<^verbatim>\<open>public/file.txt\<close>.
\<close>

theorem exclude_with_repo_name:
  assumes "subRepoPermsEnabled flag" and "userID \<noteq> 0"
    and "permissionsGetter s = Some pg"
    and "RepoSupported pg ''r'' = (True, None)"
    and "GetByUser pg userID = (srp, None)"
    and "srp ''r'' = Some \<lparr>PathIncludes = [''**''], PathExcludes = [''r/secret/**'']\<rparr>"
  shows "fst (Permissions gobwas flag s userID \<lparr>Repo = ''r'', Path = ''secret/file.txt''\<rparr>)
           = (None_Perms, None)
       \<and> fst (Permissions gobwas flag s userID \<lparr>Repo = ''r'', Path = ''public/file.txt''\<rparr>)
           = (Read, None)"
proof -
  let ?rules = "\<lparr>PathIncludes = [''**''], PathExcludes = [''r/secret/**'']\<rparr>"
  have i: "list_all (compiles gobwas) (PathIncludes ?rules)"
    by (simp add: compiles_all)
  have e: "list_all (compiles gobwas) (PathExcludes ?rules)"
    by (simp add: compiles_r_secret)
  have d1: "decide gobwas ?rules ''r/secret/file.txt'' = None_Perms" by code_simp
  have d2: "decide gobwas ?rules ''r/public/file.txt'' = Read" by code_simp
  have r: "RepoSupported pg (Repo \<lparr>Repo = ''r'', Path = p\<rparr>) = (True, None)"
    and m: "srp (Repo \<lparr>Repo = ''r'', Path = p\<rparr>) = Some ?rules" for p
    using assms(4,6) by simp_all
  show ?thesis
    by (simp add: Permissions_rules [OF assms(1-3) r assms(5) m i e]
        Join_secret Join_public d1 d2)
qed

theorem exclude_with_repo_name_witness:
  "fst (Permissions gobwas 1
     \<lparr>permissionsGetter = Some (example_getter
        \<lparr>PathIncludes = [''**''], PathExcludes = [''r/secret/**'']\<rparr> True)\<rparr>
     7 \<lparr>Repo = ''r'', Path = ''secret/file.txt''\<rparr>) = (None_Perms, None)
   \<and> fst (Permissions gobwas 1
     \<lparr>permissionsGetter = Some (example_getter
        \<lparr>PathIncludes = [''**''], PathExcludes = [''r/secret/**'']\<rparr> True)\<rparr>
     7 \<lparr>Repo = ''r'', Path = ''public/file.txt''\<rparr>) = (Read, None)"
  by (rule exclude_with_repo_name [OF example_store])

text \<open>
  The claim C1 as it was stated, with the excludes \<^verbatim>\<open>["secret/**"]\<close>, fails: the subject
  \<^verbatim>\<open>r/secret/file.txt\<close> is not matched by \<^verbatim>\<open>secret/**\<close>, the include \<^verbatim>\<open>**\<close> matches, and
  the path \<^verbatim>\<open>secret/file.txt\<close> gets \<open>Read\<close>.
\<close>

theorem exclude_without_repo_name_counterexample:
  "fst (Permissions gobwas 1
     \<lparr>permissionsGetter = Some (example_getter
        \<lparr>PathIncludes = [''**''], PathExcludes = [''secret/**'']\<rparr> True)\<rparr>
     7 \<lparr>Repo = ''r'', Path = ''secret/file.txt''\<rparr>) = (Read, None)"
proof -
  let ?rules = "\<lparr>PathIncludes = [''**''], PathExcludes = [''secret/**'']\<rparr>"
  have i: "list_all (compiles gobwas) (PathIncludes ?rules)"
    by (simp add: compiles_all)
  have e: "list_all (compiles gobwas) (PathExcludes ?rules)"
    by (simp add: compiles_secret)
  have d: "decide gobwas ?rules ''r/secret/file.txt'' = Read" by code_simp
  show ?thesis
    by (simp add: Permissions_rules [OF example_reaches_rules i e] Join_secret d)
qed

section \<open>Where \<open>Read\<close> comes from\<close>

lemma Permissions_Read:
  assumes "fst (fst (Permissions G flag s userID content)) = Read"
  shows "snd (fst (Permissions G flag s userID content)) = None
       \<and> (\<not> subRepoPermsEnabled flag \<or> unsupported_repo s content
            \<or> include_grant G s userID content)"
proof (cases "subRepoPermsEnabled flag \<and> userID \<noteq> 0")
  case False
  with assms show ?thesis
    by (auto simp: Permissions_def split: if_splits)
next
  case True
  then have en: "subRepoPermsEnabled flag" and uid: "userID \<noteq> 0" by simp_all
  show ?thesis
  proof (cases "permissionsGetter s")
    case None
    with assms en uid show ?thesis by (simp add: Permissions_def)
  next
    case (Some pg)
    obtain supported e1 where rs: "RepoSupported pg (Repo content) = (supported, e1)"
      by (cases "RepoSupported pg (Repo content)")
    obtain srp e2 where gb: "GetByUser pg userID = (srp, e2)"
      by (cases "GetByUser pg userID")
    show ?thesis
    proof (cases "e1 = None \<and> supported \<and> e2 = None")
      case False
      with assms en uid Some rs gb show ?thesis
        by (auto simp: Permissions_def unsupported_repo_def split: option.splits)
    next
      case True
      with rs gb have rs': "RepoSupported pg (Repo content) = (True, None)"
        and gb': "GetByUser pg userID = (srp, None)" by simp_all
      show ?thesis
      proof (cases "srp (Repo content)")
        case None
        with assms en uid Some rs' gb' show ?thesis by (simp add: Permissions_def)
      next
        case (Some repoRules) note rules = this
        show ?thesis
        proof (cases "list_all (compiles G) (PathIncludes repoRules @ PathExcludes repoRules)")
          case False
          from find_bad_pattern [OF False] obtain bad err
            where "find (\<lambda>p. \<not> compiles G p)
                     (PathIncludes repoRules @ PathExcludes repoRules) = Some bad"
              and "Compile G bad ''/'' = Inl err"
            by blast
          from Permissions_compile_error [OF en uid \<open>permissionsGetter s = Some pg\<close>
              rs' gb' rules this] assms
          show ?thesis by simp
        next
          case True
          then have i: "list_all (compiles G) (PathIncludes repoRules)"
            and e: "list_all (compiles G) (PathExcludes repoRules)" by simp_all
          from Permissions_rules [OF en uid \<open>permissionsGetter s = Some pg\<close>
              rs' gb' rules i e] assms
          show ?thesis
            by (simp add: decide_def include_grant_def
                \<open>permissionsGetter s = Some pg\<close> gb' rules split: if_splits)
        qed
      qed
    qed
  qed
qed

text \<open>
  C5. \<open>Permissions\<close> returns \<open>Read\<close> only without an error, and only when the flag
  is disabled, or \<open>RepoSupported\<close> returned \<open>(false, nil)\<close>, or an include pattern of
  the rule set matched the subject and no exclude pattern did. \<open>ActorPermissions\<close>
  (over this checker) returns \<open>Read\<close> only on one of these paths or for an
  authenticated internal actor. Every other outcome carries \<open>None\<close>.
\<close>

theorem Read_only_by_grant:
  "(fst (fst (Permissions G flag s userID content)) = Read \<longrightarrow>
      snd (fst (Permissions G flag s userID content)) = None
      \<and> (\<not> subRepoPermsEnabled flag \<or> unsupported_repo s content
           \<or> include_grant G s userID content))
   \<and> (fst (fst (ActorPermissions flag (Permissions G flag s) a content)) = Read \<longrightarrow>
      snd (fst (ActorPermissions flag (Permissions G flag s) a content)) = None
      \<and> (\<not> subRepoPermsEnabled flag \<or> IsAuthenticated a \<and> IsInternal a
           \<or> unsupported_repo s content \<or> include_grant G s (UID a) content))
   \<and> (fst (fst (Permissions G flag s userID content)) \<noteq> Read \<longrightarrow>
      fst (fst (Permissions G flag s userID content)) = None_Perms)
   \<and> (fst (fst (ActorPermissions flag (Permissions G flag s) a content)) \<noteq> Read \<longrightarrow>
      fst (fst (ActorPermissions flag (Permissions G flag s) a content)) = None_Perms)"
proof -
  have p: "fst (fst (Permissions G flag s u content)) = Read \<longrightarrow>
      snd (fst (Permissions G flag s u content)) = None
      \<and> (\<not> subRepoPermsEnabled flag \<or> unsupported_repo s content
           \<or> include_grant G s u content)" for u
    using Permissions_Read [of G flag s u content] by blast
  have a: "fst (fst (ActorPermissions flag (Permissions G flag s) a content)) = Read \<longrightarrow>
      snd (fst (ActorPermissions flag (Permissions G flag s) a content)) = None
      \<and> (\<not> subRepoPermsEnabled flag \<or> IsAuthenticated a \<and> IsInternal a
           \<or> unsupported_repo s content \<or> include_grant G s (UID a) content)"
    using p [of "UID a"] by (auto simp: ActorPermissions_def)
  have x: "x \<noteq> Read \<longrightarrow> x = None_Perms" for x :: Perms
    by (cases x) simp_all
  from p [of userID] a x show ?thesis by blast
qed

theorem Read_only_by_grant_witness:
  "fst (Permissions gobwas 1
     \<lparr>permissionsGetter = Some (example_getter
        \<lparr>PathIncludes = [''**''], PathExcludes = [''r/secret/**'']\<rparr> True)\<rparr>
     7 \<lparr>Repo = ''r'', Path = ''public/file.txt''\<rparr>) = (Read, None)
   \<and> include_grant gobwas
     \<lparr>permissionsGetter = Some (example_getter
        \<lparr>PathIncludes = [''**''], PathExcludes = [''r/secret/**'']\<rparr> True)\<rparr>
     7 \<lparr>Repo = ''r'', Path = ''public/file.txt''\<rparr>"
proof -
  let ?rules = "\<lparr>PathIncludes = [''**''], PathExcludes = [''r/secret/**'']\<rparr>"
  let ?s = "\<lparr>permissionsGetter = Some (example_getter ?rules True)\<rparr>"
  let ?c = "\<lparr>Repo = ''r'', Path = ''public/file.txt''\<rparr>"
  have i: "list_all (compiles gobwas) (PathIncludes ?rules)"
    by (simp add: compiles_all)
  have e: "list_all (compiles gobwas) (PathExcludes ?rules)"
    by (simp add: compiles_r_secret)
  have d: "decide gobwas ?rules ''r/public/file.txt'' = Read" by code_simp
  have r: "fst (fst (Permissions gobwas 1 ?s 7 ?c)) = Read"
    by (simp add: Permissions_rules [OF example_reaches_rules i e] Join_public d)
  have en: "subRepoPermsEnabled 1" by (simp add: subRepoPermsEnabled_def)
  have sup: "\<not> unsupported_repo ?s ?c"
    by (simp add: unsupported_repo_def example_getter_def)
  from Read_only_by_grant [of gobwas 1 ?s 7 ?c] r en sup
  have "snd (fst (Permissions gobwas 1 ?s 7 ?c)) = None \<and> include_grant gobwas ?s 7 ?c"
    by blast
  with r show ?thesis by (simp add: prod_eq_iff)
qed

section \<open>The result of \<^verbatim>\<open>Clean\<close> is a cleaned path\<close>




































section \<open>The subject of the match\<close>















end
